theory Spec2Isabelle
  imports Complex_Main
begin

section \<open>The version model (internal/oobmigration/version.go)\<close>

text \<open>
  Go's \<open>int\<close> is a 64-bit two's complement integer on the platforms the program is built
  for. A field of that type is an \<open>int\<close> here, and every addition of the source is
  followed by \<open>int64\<close>, which writes the wrap-around out.
\<close>

definition int64 :: "int \<Rightarrow> int" where
  "int64 x = (x + 2 ^ 63) mod 2 ^ 64 - 2 ^ 63"

record Version =
  Major :: int
  Minor :: int

definition NewVersion :: "int \<Rightarrow> int \<Rightarrow> Version" where
  "NewVersion major minor = \<lparr>Major = major, Minor = minor\<rparr>"

text \<open>The verb \<open>%d\<close> of \<open>fmt.Sprintf\<close>: decimal digits, with a minus sign below zero.\<close>

fun digits_of_nat :: "nat \<Rightarrow> string" where
  "digits_of_nat n =
     (if n < 10 then [''0123456789'' ! n]
      else digits_of_nat (n div 10) @ [''0123456789'' ! (n mod 10)])"

definition format_int :: "int \<Rightarrow> string" where
  "format_int i =
     (if i < 0 then CHR ''-'' # digits_of_nat (nat (- i)) else digits_of_nat (nat i))"

definition Version_String :: "Version \<Rightarrow> string" where
  "Version_String v = format_int (Major v) @ ''.'' @ format_int (Minor v)"

definition GitTag :: "Version \<Rightarrow> string" where
  "GitTag v = ''v'' @ format_int (Major v) @ ''.'' @ format_int (Minor v) @ ''.0''"

datatype VersionOrder = VersionOrderBefore | VersionOrderEqual | VersionOrderAfter

text \<open>
  \<open>CompareVersions\<close> walks the pairs \<open>{a.Major, b.Major}\<close>, \<open>{a.Minor, b.Minor}\<close> and
  returns at the first pair that differs.
\<close>

fun compare_pairs :: "(int \<times> int) list \<Rightarrow> VersionOrder" where
  "compare_pairs [] = VersionOrderEqual"
| "compare_pairs (pair # pairs) =
     (if fst pair < snd pair then VersionOrderBefore
      else if fst pair > snd pair then VersionOrderAfter
      else compare_pairs pairs)"

definition CompareVersions :: "Version \<Rightarrow> Version \<Rightarrow> VersionOrder" where
  "CompareVersions a b = compare_pairs [(Major a, Major b), (Minor a, Minor b)]"

definition pointIntersectsInterval :: "Version \<Rightarrow> Version \<Rightarrow> Version \<Rightarrow> bool" where
  "pointIntersectsInterval lower upper point \<longleftrightarrow>
     CompareVersions point lower \<noteq> VersionOrderBefore \<and>
     CompareVersions upper point \<noteq> VersionOrderBefore"

text \<open>
  The table of the last minor release of a major series, and the read \<open>lastInSeries[k]\<close>
  of the source: indexing a Go map with a key it does not hold gives the zero value.
\<close>

definition lastInSeries :: "int \<rightharpoonup> int" where
  "lastInSeries = [3 \<mapsto> 47]"

definition lastInSeries_index :: "int \<Rightarrow> int" where
  "lastInSeries_index k = (case lastInSeries k of None \<Rightarrow> 0 | Some minor \<Rightarrow> minor)"

definition bump :: "Version \<Rightarrow> Version" where
  "bump v =
     (if lastInSeries_index (Major v) = Minor v then NewVersion (int64 (Major v + 1)) 0
      else NewVersion (Major v) (int64 (Minor v + 1)))"

text \<open>
  Errors are values carrying the message of \<open>errors.Newf\<close>.
\<close>

datatype error = Error string

definition invalid_range :: "Version \<Rightarrow> Version \<Rightarrow> error" where
  "invalid_range from to =
     Error (''invalid range (from='' @ Version_String from @ '' > to='' @ Version_String to @ '')'')"

text \<open>
  The loop of \<open>MakeUpgradeRange\<close> appends one version in every iteration, and nothing in
  the source bounds the number of iterations. The first argument of \<open>upgrade_loop\<close> is the
  room left in the slice, the number of appends still possible; \<open>None\<close> is a run that does
  not return, because the runtime stops the program when the slice cannot grow. The
  length of a Go slice is an \<open>int\<close>, so no machine has more room than \<open>maxSliceLen\<close>, and
  every machine has less. \<open>MakeUpgradeRange\<close> is the run with that much room: where it is
  \<open>None\<close> the call returns on no machine, and where it is a value the call returns that
  value on a machine that can hold it.
\<close>

definition maxSliceLen :: nat where
  "maxSliceLen = 2 ^ 63 - 1"

fun upgrade_loop :: "nat \<Rightarrow> Version \<Rightarrow> Version \<Rightarrow> Version list \<Rightarrow> Version list option" where
  "upgrade_loop 0 v to versions =
     (if CompareVersions v to \<noteq> VersionOrderAfter then None else Some versions)"
| "upgrade_loop (Suc room) v to versions =
     (if CompareVersions v to \<noteq> VersionOrderAfter
      then upgrade_loop room (bump v) to (versions @ [v])
      else Some versions)"

definition MakeUpgradeRange :: "Version \<Rightarrow> Version \<Rightarrow> (error + Version list) option" where
  "MakeUpgradeRange from to =
     (if CompareVersions from to = VersionOrderAfter then Some (Inl (invalid_range from to))
      else map_option Inr (upgrade_loop maxSliceLen from to []))"

section \<open>The interrupt schedule (internal/oobmigration)\<close>

text \<open>
  Modelled from the spec: the type \<open>MigrationInterrupt\<close>, declared outside the sources
  verified here. An interrupt is a version and the identifiers of the migrations that
  must be complete there; \<open>planUpgrade\<close> reads these two fields.
\<close>

record MigrationInterrupt =
  Version :: Version
  MigrationIDs :: "int list"

text \<open>
  Modelled from the spec: the record of a registered out-of-band migration, which the
  sources verified here do not declare. It has an identifier and the validity interval
  \<open>[introducedAt, deprecatedAt)\<close>.
\<close>

record OutOfBandMigration =
  migration_id :: int
  introducedAt :: Version
  deprecatedAt :: Version

text \<open>
  Modelled from the spec: the test that \<open>point\<close> falls inside \<open>(from, to]\<close>, the boundary
  that the upgrade from \<open>from\<close> to \<open>to\<close> crosses.
\<close>

definition crosses :: "Version \<Rightarrow> Version \<Rightarrow> Version \<Rightarrow> bool" where
  "crosses from to point \<longleftrightarrow>
     CompareVersions from point = VersionOrderBefore \<and>
     CompareVersions point to \<noteq> VersionOrderAfter"

text \<open>
  Modelled from the spec: the versions of the interrupts, ordered by version ascending,
  one entry for each version (interrupts sharing a version are merged).
\<close>

fun insert_version :: "Version \<Rightarrow> Version list \<Rightarrow> Version list" where
  "insert_version v [] = [v]"
| "insert_version v (w # ws) =
     (case CompareVersions v w of
        VersionOrderBefore \<Rightarrow> v # w # ws
      | VersionOrderEqual \<Rightarrow> w # ws
      | VersionOrderAfter \<Rightarrow> w # insert_version v ws)"

definition interrupt_versions :: "OutOfBandMigration list \<Rightarrow> Version list" where
  "interrupt_versions migrations = foldr insert_version (map deprecatedAt migrations) []"

text \<open>
  Modelled from the spec: the function \<open>ScheduleMigrationInterrupts\<close>, which \<open>planUpgrade\<close>
  calls and whose source is not part of the sources verified here. For every registered
  migration whose \<open>deprecatedAt\<close> lies in \<open>(from, to]\<close> an interrupt keyed by
  \<open>deprecatedAt\<close> records the migration's identifier; interrupts of one version are one
  entry that lists all their identifiers.
\<close>

definition scheduleInterrupts ::
  "OutOfBandMigration list \<Rightarrow> Version \<Rightarrow> Version \<Rightarrow> MigrationInterrupt list" where
  "scheduleInterrupts registeredMigrations from to =
     (let crossed = filter (\<lambda>m. crosses from to (deprecatedAt m)) registeredMigrations
      in map (\<lambda>v. \<lparr>Version = v,
                    MigrationIDs = map migration_id (filter (\<lambda>m. deprecatedAt m = v) crossed)\<rparr>)
           (interrupt_versions crossed))"

section \<open>The upgrade planner (internal/database/migration/cliutil/upgrade_planner.go)\<close>

record upgradeStep =
  InstanceVersion :: Version
  LeafMigrationIDsBySchema :: "string \<rightharpoonup> int list"
  OutOfBandMigrationIDs :: "int list"

record 'd migrationGraphMetadata =
  definitions :: 'd
  leafIDsByRev :: "string \<rightharpoonup> int list"

text \<open>
  The planner reads three things that the sources verified here only name: the list
  \<open>schemas.SchemaNames\<close>, the function \<open>stitch.StitchDefinitions\<close> and the function
  \<open>oobmigration.ScheduleMigrationInterrupts\<close>. They are parameters of the model; the type
  \<open>'d\<close> stands for \<open>*definition.Definitions\<close>. Every call of one of the two functions is
  written to a log, which the planner returns beside its result.
\<close>

record 'd collaborators =
  SchemaNames :: "string list"
  StitchDefinitions :: "string \<Rightarrow> string \<Rightarrow> string list \<Rightarrow> error + 'd \<times> (string \<rightharpoonup> int list)"
  ScheduleMigrationInterrupts :: "Version \<Rightarrow> Version \<Rightarrow> error + MigrationInterrupt list"

datatype call =
  Call_StitchDefinitions string string "string list"
| Call_ScheduleMigrationInterrupts Version Version

definition repo_root :: string where
  "repo_root = ''/Users/efritz/dev/sourcegraph/sourcegraph''"

definition gitTags :: "Version list \<Rightarrow> string list" where
  "gitTags versions = map GitTag versions"

text \<open>Reading a Go map of slices at a key it does not hold gives the nil slice.\<close>

definition index_or_nil :: "('k \<rightharpoonup> 'a list) \<Rightarrow> 'k \<Rightarrow> 'a list" where
  "index_or_nil m k = (case m k of None \<Rightarrow> [] | Some xs \<Rightarrow> xs)"

fun stitch_schemas ::
  "'d collaborators \<Rightarrow> Version list \<Rightarrow> string list \<Rightarrow>
   (string \<rightharpoonup> 'd migrationGraphMetadata) \<Rightarrow> call list \<Rightarrow>
   call list \<times> (error + (string \<rightharpoonup> 'd migrationGraphMetadata))" where
  "stitch_schemas deps versionRange [] metadataBySchemaName calls =
     (calls, Inr metadataBySchemaName)"
| "stitch_schemas deps versionRange (schemaName # rest) metadataBySchemaName calls =
     (case StitchDefinitions deps schemaName repo_root (gitTags versionRange) of
        Inl err \<Rightarrow>
          (calls @ [Call_StitchDefinitions schemaName repo_root (gitTags versionRange)], Inl err)
      | Inr (defs, leaves) \<Rightarrow>
          stitch_schemas deps versionRange rest
            (metadataBySchemaName(schemaName \<mapsto> \<lparr>definitions = defs, leafIDsByRev = leaves\<rparr>))
            (calls @ [Call_StitchDefinitions schemaName repo_root (gitTags versionRange)]))"

definition metadataBySchemaNameForVersion ::
  "'d collaborators \<Rightarrow> Version list \<Rightarrow>
   call list \<times> (error + (string \<rightharpoonup> 'd migrationGraphMetadata))" where
  "metadataBySchemaNameForVersion deps versionRange =
     stitch_schemas deps versionRange (SchemaNames deps) Map.empty []"

definition makeUpgradeStep ::
  "(string \<rightharpoonup> 'd migrationGraphMetadata) \<Rightarrow> Version \<Rightarrow> int list \<Rightarrow> upgradeStep" where
  "makeUpgradeStep metadataBySchemaName version migrationIDs =
     \<lparr>InstanceVersion = version,
      LeafMigrationIDsBySchema =
        (\<lambda>schemaName. map_option (\<lambda>metadata. index_or_nil (leafIDsByRev metadata) (GitTag version))
           (metadataBySchemaName schemaName)),
      OutOfBandMigrationIDs = migrationIDs\<rparr>"

definition planUpgrade ::
  "'d collaborators \<Rightarrow> Version list \<Rightarrow> call list \<times> (error + upgradeStep list)" where
  "planUpgrade deps versionRange =
     (case versionRange of
        [] \<Rightarrow> ([], Inr [])
      | from # _ \<Rightarrow>
          (let to = last versionRange in
           case metadataBySchemaNameForVersion deps versionRange of
             (calls, Inl err) \<Rightarrow> (calls, Inl err)
           | (calls, Inr metadataBySchemaName) \<Rightarrow>
               (case ScheduleMigrationInterrupts deps from to of
                  Inl err \<Rightarrow> (calls @ [Call_ScheduleMigrationInterrupts from to], Inl err)
                | Inr interrupts \<Rightarrow>
                    (calls @ [Call_ScheduleMigrationInterrupts from to],
                     Inr (map (\<lambda>interrupt. makeUpgradeStep metadataBySchemaName
                                 (Version interrupt) (MigrationIDs interrupt)) interrupts
                          @ [makeUpgradeStep metadataBySchemaName to []])))))"

section \<open>The changeset spec migrator (batches/migrations/changeset_spec_migrator.go)\<close>

text \<open>
  The table \<open>changeset_specs\<close> is a list of rows. The migrator reads and writes the column
  \<open>migrated\<close>; \<open>other_columns\<close> stands for the rest of a row. A store whose \<open>failure\<close> is
  set fails every statement with that error and changes nothing. The \<open>float\<close> of the
  progress query is a real number here: the two counts are exact in it, and so is the
  quotient wherever it is 0 or 1.
\<close>

record 'c changeset_spec =
  spec_id :: int
  migrated :: bool
  other_columns :: 'c

record 'c Store =
  changeset_specs :: "'c changeset_spec list"
  failure :: "error option"

definition changesetSpecMigrationCountPerRun :: nat where
  "changesetSpecMigrationCountPerRun = 100"

definition changesetSpecMigratorProgressQuery :: "'c changeset_spec list \<Rightarrow> real" where
  "changesetSpecMigratorProgressQuery rows =
     (let c1 = int (length (filter migrated rows));
          c2 = int (length rows)
      in if c2 = 0 then 1 else real_of_int (c2 - c1) / real_of_int c2)"

definition Progress :: "'c Store \<Rightarrow> error + real" where
  "Progress store =
     (case failure store of
        Some err \<Rightarrow> Inl err
      | None \<Rightarrow> Inr (changesetSpecMigratorProgressQuery (changeset_specs store)))"

definition changesetSpecMigratorDownQuery ::
  "'c changeset_spec list \<Rightarrow> 'c changeset_spec list" where
  "changesetSpecMigratorDownQuery rows =
     map (\<lambda>row. if (1::int) = 1 then row\<lparr>migrated := False\<rparr> else row) rows"

definition Down :: "'c Store \<Rightarrow> 'c Store \<times> error option" where
  "Down store =
     (case failure store of
        Some err \<Rightarrow> (store, Some err)
      | None \<Rightarrow>
          (store\<lparr>changeset_specs := changesetSpecMigratorDownQuery (changeset_specs store)\<rparr>,
           None))"

text \<open>
  The identifiers of the rows that a statement reversed: \<open>migrated\<close> before it, and not
  \<open>migrated\<close> after it.
\<close>

definition reversed_rows :: "'c changeset_spec list \<Rightarrow> 'c changeset_spec list \<Rightarrow> int list" where
  "reversed_rows before after =
     map spec_id (filter (\<lambda>row. migrated row \<and>
        (\<exists>row' \<in> set after. spec_id row' = spec_id row \<and> \<not> migrated row')) before)"

text \<open>A table of \<open>n\<close> rows, all of them migrated.\<close>

definition migrated_table :: "nat \<Rightarrow> unit changeset_spec list" where
  "migrated_table n =
     map (\<lambda>i. \<lparr>spec_id = int i, migrated = True, other_columns = ()\<rparr>) [0..<n]"

section \<open>Properties of the version model\<close>

lemma CompareVersions_Before:
  "CompareVersions a b = VersionOrderBefore \<longleftrightarrow>
     Major a < Major b \<or> (Major a = Major b \<and> Minor a < Minor b)"
  by (auto simp: CompareVersions_def)

lemma CompareVersions_After:
  "CompareVersions a b = VersionOrderAfter \<longleftrightarrow>
     Major b < Major a \<or> (Major a = Major b \<and> Minor b < Minor a)"
  by (auto simp: CompareVersions_def)

lemma CompareVersions_Equal:
  "CompareVersions a b = VersionOrderEqual \<longleftrightarrow> Major a = Major b \<and> Minor a = Minor b"
  by (auto simp: CompareVersions_def)

lemma int64_id: "- (2 ^ 63) \<le> x \<Longrightarrow> x < 2 ^ 63 \<Longrightarrow> int64 x = x"
  unfolding int64_def by (simp add: mod_pos_pos_trivial)

lemmas version_eval =
  CompareVersions_def bump_def NewVersion_def lastInSeries_index_def lastInSeries_def int64_def

text \<open>A run that returns with some room left returns the same with more room.\<close>

lemma upgrade_loop_more_room:
  "upgrade_loop n v to acc = Some r \<Longrightarrow> n \<le> m \<Longrightarrow> upgrade_loop m v to acc = Some r"
proof (induction n v to acc arbitrary: m rule: upgrade_loop.induct)
  case (1 v to versions)
  then show ?case by (cases m) (auto split: if_splits)
next
  case (2 room v to versions)
  then show ?case by (cases m) (auto split: if_splits)
qed

lemma MakeUpgradeRange_from_loop:
  assumes "CompareVersions from to \<noteq> VersionOrderAfter"
    and "upgrade_loop n from to [] = Some r" and "n \<le> maxSliceLen"
  shows "MakeUpgradeRange from to = Some (Inr r)"
  using upgrade_loop_more_room [OF assms(2,3)] assms(1) by (simp add: MakeUpgradeRange_def)

text \<open>
  Claim C8. \<open>bump {3,47}\<close> is \<open>{4,0}\<close> and \<open>bump {3,10}\<close> is \<open>{3,11}\<close>: the table registers 47
  as the last minor of major 3, where \<open>bump\<close> goes to minor 0 of the next major; at every
  other minor of major 3 it adds one to the minor and keeps the major.
\<close>

theorem bump_examples:
  "bump (NewVersion 3 47) = NewVersion 4 0 \<and> bump (NewVersion 3 10) = NewVersion 3 11 \<and>
   lastInSeries 3 = Some 47 \<and>
   bump (NewVersion 3 minor) =
     (if minor = 47 then NewVersion 4 0 else NewVersion 3 (int64 (minor + 1)))"
  by (simp add: version_eval)

text \<open>
  Claim C9. \<open>CompareVersions\<close> is a strict total order, lexicographic in major then minor:
  a version is equal to itself, and only to itself; \<open>a\<close> is before \<open>b\<close> exactly when \<open>b\<close>
  is after \<open>a\<close>; before is transitive; of two different versions one is before the
  other.
\<close>

theorem CompareVersions_strict_total_order:
  "CompareVersions v v = VersionOrderEqual \<and>
   (CompareVersions a b = VersionOrderBefore \<longleftrightarrow> CompareVersions b a = VersionOrderAfter) \<and>
   (CompareVersions a b = VersionOrderBefore \<and> CompareVersions b c = VersionOrderBefore
      \<longrightarrow> CompareVersions a c = VersionOrderBefore) \<and>
   (CompareVersions a b = VersionOrderEqual \<longleftrightarrow> a = b) \<and>
   (CompareVersions a b = VersionOrderBefore \<or> a = b \<or>
    CompareVersions b a = VersionOrderBefore) \<and>
   (CompareVersions a b = VersionOrderBefore \<longleftrightarrow>
      Major a < Major b \<or> (Major a = Major b \<and> Minor a < Minor b))"
proof (intro conjI)
  show "CompareVersions a b = VersionOrderBefore \<or> a = b \<or>
    CompareVersions b a = VersionOrderBefore"
  proof (cases "Major a = Major b \<and> Minor a = Minor b")
    case True
    then have "a = b" by simp
    then show ?thesis by simp
  next
    case False
    then show ?thesis by (auto simp: CompareVersions_Before)
  qed
  show "CompareVersions v v = VersionOrderEqual"
    by (simp add: CompareVersions_def)
  show "CompareVersions a b = VersionOrderBefore \<longleftrightarrow> CompareVersions b a = VersionOrderAfter"
    by (auto simp: CompareVersions_Before CompareVersions_After)
  show "CompareVersions a b = VersionOrderBefore \<and> CompareVersions b c = VersionOrderBefore
      \<longrightarrow> CompareVersions a c = VersionOrderBefore"
    by (auto simp: CompareVersions_Before)
  show "CompareVersions a b = VersionOrderEqual \<longleftrightarrow> a = b"
    by (auto simp: CompareVersions_Equal)
  show "CompareVersions a b = VersionOrderBefore \<longleftrightarrow>
      Major a < Major b \<or> (Major a = Major b \<and> Minor a < Minor b)"
    by (rule CompareVersions_Before)
qed

theorem CompareVersions_strict_total_order_witness:
  "CompareVersions (NewVersion 3 46) (NewVersion 3 47) = VersionOrderBefore \<and>
   CompareVersions (NewVersion 3 47) (NewVersion 4 0) = VersionOrderBefore \<and>
   CompareVersions (NewVersion 3 46) (NewVersion 4 0) = VersionOrderBefore \<and>
   CompareVersions (NewVersion 4 0) (NewVersion 3 46) = VersionOrderAfter"
proof -
  have ab: "CompareVersions (NewVersion 3 46) (NewVersion 3 47) = VersionOrderBefore"
    by (simp add: CompareVersions_def NewVersion_def)
  have bc: "CompareVersions (NewVersion 3 47) (NewVersion 4 0) = VersionOrderBefore"
    by (simp add: CompareVersions_def NewVersion_def)
  note order = CompareVersions_strict_total_order
  from order [of "NewVersion 3 46" "NewVersion 3 46" "NewVersion 3 47" "NewVersion 4 0"] ab bc
  have ac: "CompareVersions (NewVersion 3 46) (NewVersion 4 0) = VersionOrderBefore"
    by blast
  from order [of "NewVersion 3 46" "NewVersion 3 46" "NewVersion 4 0"] ac
  have ca: "CompareVersions (NewVersion 4 0) (NewVersion 3 46) = VersionOrderAfter"
    by blast
  from ab bc ac ca show ?thesis by blast
qed

text \<open>
  Claim C3. The claim is that \<open>MakeUpgradeRange {3,46} {4,1}\<close> is the four versions
  \<open>{3,46}, {3,47}, {4,0}, {4,1}\<close>. The source returns three: major 4 is not a key of
  \<open>lastInSeries\<close>, the read gives 0, which is the minor of \<open>{4,0}\<close>, so \<open>bump {4,0}\<close> is
  \<open>{5,0}\<close> and the loop ends before \<open>{4,1}\<close>.
\<close>

theorem MakeUpgradeRange_3_46_to_4_1:
  "MakeUpgradeRange (NewVersion 3 46) (NewVersion 4 1) =
     Some (Inr [NewVersion 3 46, NewVersion 3 47, NewVersion 4 0]) \<and>
   bump (NewVersion 4 0) = NewVersion 5 0 \<and>
   MakeUpgradeRange (NewVersion 3 46) (NewVersion 4 1) \<noteq>
     Some (Inr [NewVersion 3 46, NewVersion 3 47, NewVersion 4 0, NewVersion 4 1])"
proof -
  have "upgrade_loop 3 (NewVersion 3 46) (NewVersion 4 1) [] =
      Some [NewVersion 3 46, NewVersion 3 47, NewVersion 4 0]"
    by (simp add: eval_nat_numeral version_eval)
  then have "MakeUpgradeRange (NewVersion 3 46) (NewVersion 4 1) =
     Some (Inr [NewVersion 3 46, NewVersion 3 47, NewVersion 4 0])"
    by (rule MakeUpgradeRange_from_loop [rotated]) (simp_all add: maxSliceLen_def version_eval)
  then show ?thesis by (simp add: version_eval)
qed

text \<open>
  Claim C1. The claim is that for every \<open>from\<close> not after \<open>to\<close> the range starts at
  \<open>from\<close>, ends at \<open>to\<close> and visits every version between them. At \<open>from = {4,0}\<close>,
  \<open>to = {4,2}\<close> the source returns the one version \<open>{4,0}\<close>: the range does not reach \<open>to\<close>,
  and \<open>{4,1}\<close> is skipped, because the read of \<open>lastInSeries\<close> at the unregistered major 4
  gives 0.
\<close>

theorem MakeUpgradeRange_4_0_to_4_2:
  "MakeUpgradeRange (NewVersion 4 0) (NewVersion 4 2) = Some (Inr [NewVersion 4 0]) \<and>
   CompareVersions (NewVersion 4 0) (NewVersion 4 2) = VersionOrderBefore \<and>
   lastInSeries 4 = None"
proof -
  have "upgrade_loop 1 (NewVersion 4 0) (NewVersion 4 2) [] = Some [NewVersion 4 0]"
    by (simp add: version_eval)
  then have "MakeUpgradeRange (NewVersion 4 0) (NewVersion 4 2) = Some (Inr [NewVersion 4 0])"
    by (rule MakeUpgradeRange_from_loop [rotated]) (simp_all add: maxSliceLen_def version_eval)
  then show ?thesis by (simp add: version_eval)
qed

text \<open>
  The error of the inverted range is returned exactly when \<open>from\<close> is after \<open>to\<close>.
\<close>

lemma MakeUpgradeRange_inverted_range:
  "(CompareVersions from to = VersionOrderAfter \<longrightarrow>
      MakeUpgradeRange from to = Some (Inl (invalid_range from to))) \<and>
   (CompareVersions from to \<noteq> VersionOrderAfter \<longrightarrow>
      (\<forall>err. MakeUpgradeRange from to \<noteq> Some (Inl err)))"
  by (auto simp: MakeUpgradeRange_def)

lemma MakeUpgradeRange_4_0_to_3_9:
  "MakeUpgradeRange (NewVersion 4 0) (NewVersion 3 9) =
     Some (Inl (Error ''invalid range (from=4.0 > to=3.9)''))"
  by (simp add: MakeUpgradeRange_def invalid_range_def Version_String_def format_int_def
      CompareVersions_def NewVersion_def)

text \<open>A run that does not return with some room does not return with less.\<close>

lemma upgrade_loop_less_room:
  "upgrade_loop n v to acc = None \<Longrightarrow> m \<le> n \<Longrightarrow> upgrade_loop m v to acc = None"
proof (cases "upgrade_loop m v to acc")
  case None
  then show ?thesis .
next
  case (Some r)
  assume "upgrade_loop n v to acc = None" and "m \<le> n"
  with upgrade_loop_more_room [OF Some] show ?thesis by simp
qed

text \<open>
  From a version of major 1 whose minor is not 0 the loop never reaches \<open>{2,0}\<close>: \<open>bump\<close>
  leaves major 1 only at minor 0, and the minors after 1 are not 0 before the room is
  used up.
\<close>

lemma upgrade_loop_1_x_never_reaches_2_0:
  "Major v = 1 \<Longrightarrow>
   (1 \<le> Minor v \<and> Minor v + int n \<le> 2 ^ 63) \<or> (Minor v = - (2 ^ 63) \<and> n = 0) \<Longrightarrow>
   upgrade_loop n v (NewVersion 2 0) acc = None"
proof (induction n arbitrary: v acc)
  case 0
  then show ?case by (simp add: CompareVersions_def NewVersion_def)
next
  case (Suc n)
  have b: "bump v = NewVersion 1 (int64 (Minor v + 1))"
    using Suc.prems by (auto simp add: bump_def lastInSeries_index_def lastInSeries_def)
  have c: "CompareVersions v (NewVersion 2 0) \<noteq> VersionOrderAfter"
    using Suc.prems by (simp add: CompareVersions_def NewVersion_def)
  have "upgrade_loop n (bump v) (NewVersion 2 0) (acc @ [v]) = None"
  proof (rule Suc.IH)
    show "Major (bump v) = 1" by (simp add: b NewVersion_def)
    show "1 \<le> Minor (bump v) \<and> Minor (bump v) + int n \<le> 2 ^ 63 \<or>
          Minor (bump v) = - (2 ^ 63) \<and> n = 0"
    proof (cases "Minor v + 1 < 2 ^ 63")
      case True
      with Suc.prems(2) have "int64 (Minor v + 1) = Minor v + 1" by (intro int64_id) auto
      with True Suc.prems(2) show ?thesis by (auto simp add: b NewVersion_def)
    next
      case False
      with Suc.prems(2) have "Minor v + 1 = 2 ^ 63" "n = 0" by auto
      then show ?thesis by (simp add: b NewVersion_def int64_def)
    qed
  qed
  then show ?case using c by simp
qed

text \<open>
  Claim C5. The claim is that \<open>MakeUpgradeRange\<close> returns the error of the inverted range
  exactly when \<open>from\<close> is after \<open>to\<close>, and a sequence of versions for every other pair. At
  \<open>from = {1,1}\<close>, \<open>to = {2,0}\<close>, where \<open>from\<close> is before \<open>to\<close>, the source returns neither:
  the loop appends \<open>{1,1}\<close>, \<open>{1,2}\<close>, ... and reaches no version after \<open>to\<close>, whatever
  the room in the slice is, so the call ends only when memory is exhausted.
\<close>

theorem MakeUpgradeRange_1_1_to_2_0_does_not_return:
  "CompareVersions (NewVersion 1 1) (NewVersion 2 0) = VersionOrderBefore \<and>
   MakeUpgradeRange (NewVersion 1 1) (NewVersion 2 0) = None \<and>
   upgrade_loop (min room maxSliceLen) (NewVersion 1 1) (NewVersion 2 0) [] = None"
proof -
  have full: "upgrade_loop maxSliceLen (NewVersion 1 1) (NewVersion 2 0) [] = None"
    by (rule upgrade_loop_1_x_never_reaches_2_0) (simp_all add: NewVersion_def maxSliceLen_def)
  then have "upgrade_loop (min room maxSliceLen) (NewVersion 1 1) (NewVersion 2 0) [] = None"
    by (rule upgrade_loop_less_room) simp
  with full show ?thesis
    by (simp add: MakeUpgradeRange_def CompareVersions_def NewVersion_def)
qed

section \<open>Properties of the interrupt schedule\<close>

lemma set_insert_version: "set (insert_version v ws) = insert v (set ws)"
  by (induction ws) (auto simp: CompareVersions_Equal split: VersionOrder.splits)

lemma sorted_insert_version:
  "sorted_wrt (\<lambda>a b. CompareVersions a b = VersionOrderBefore) ws \<Longrightarrow>
   sorted_wrt (\<lambda>a b. CompareVersions a b = VersionOrderBefore) (insert_version v ws)"
proof (induction ws)
  case Nil
  then show ?case by simp
next
  case (Cons w ws)
  show ?case
  proof (cases "CompareVersions v w")
    case VersionOrderBefore
    then have "CompareVersions v x = VersionOrderBefore" if "x \<in> set ws" for x
      using Cons.prems that by (auto simp: CompareVersions_Before)
    with VersionOrderBefore Cons.prems show ?thesis by auto
  next
    case VersionOrderEqual
    with Cons.prems show ?thesis by simp
  next
    case VersionOrderAfter
    then have "CompareVersions w v = VersionOrderBefore"
      by (auto simp: CompareVersions_Before CompareVersions_After)
    with VersionOrderAfter Cons show ?thesis
      by (auto simp: set_insert_version)
  qed
qed

lemma set_interrupt_versions: "set (interrupt_versions ms) = deprecatedAt ` set ms"
  unfolding interrupt_versions_def by (induction ms) (auto simp: set_insert_version)

lemma sorted_interrupt_versions:
  "sorted_wrt (\<lambda>a b. CompareVersions a b = VersionOrderBefore) (interrupt_versions ms)"
  unfolding interrupt_versions_def by (induction ms) (auto simp: sorted_insert_version)

lemma strictly_sorted_distinct:
  "sorted_wrt (\<lambda>a b. CompareVersions a b = VersionOrderBefore) vs \<Longrightarrow> distinct vs"
  by (induction vs) (auto simp: CompareVersions_Before)

lemma Version_scheduleInterrupts:
  "map Version (scheduleInterrupts registry from to) =
     interrupt_versions (filter (\<lambda>m. crosses from to (deprecatedAt m)) registry)"
  by (simp add: scheduleInterrupts_def Let_def comp_def)

text \<open>
  Claim C2. For every range \<open>from\<close>, \<open>to\<close> and every registry, the schedule has exactly
  one entry for each distinct \<open>deprecatedAt\<close> in \<open>(from, to]\<close>: its versions are strictly
  ascending, hence distinct, and they are the \<open>deprecatedAt\<close> of the registered migrations
  inside the interval. An entry lists the identifiers of all migrations deprecated at its
  version, and a migration whose \<open>deprecatedAt\<close> is outside \<open>(from, to]\<close> has no entry.
\<close>

theorem scheduleInterrupts_one_entry_per_crossed_version:
  "sorted_wrt (\<lambda>a b. CompareVersions a b = VersionOrderBefore)
     (map Version (scheduleInterrupts registry from to)) \<and>
   distinct (map Version (scheduleInterrupts registry from to)) \<and>
   set (map Version (scheduleInterrupts registry from to)) =
     {deprecatedAt m | m. m \<in> set registry \<and> crosses from to (deprecatedAt m)} \<and>
   (\<forall>interrupt \<in> set (scheduleInterrupts registry from to).
      MigrationIDs interrupt =
        map migration_id (filter (\<lambda>m. deprecatedAt m = Version interrupt) registry) \<and>
      MigrationIDs interrupt \<noteq> []) \<and>
   (\<forall>m \<in> set registry. \<not> crosses from to (deprecatedAt m) \<longrightarrow>
      deprecatedAt m \<notin> set (map Version (scheduleInterrupts registry from to))) \<and>
   (crosses from to point \<longleftrightarrow>
      CompareVersions from point = VersionOrderBefore \<and>
      (CompareVersions point to = VersionOrderBefore \<or> point = to))"
proof (intro conjI)
  let ?crossed = "filter (\<lambda>m. crosses from to (deprecatedAt m)) registry"
  show sorted: "sorted_wrt (\<lambda>a b. CompareVersions a b = VersionOrderBefore)
     (map Version (scheduleInterrupts registry from to))"
    by (simp only: Version_scheduleInterrupts sorted_interrupt_versions)
  then show "distinct (map Version (scheduleInterrupts registry from to))"
    by (rule strictly_sorted_distinct)
  show versions: "set (map Version (scheduleInterrupts registry from to)) =
     {deprecatedAt m | m. m \<in> set registry \<and> crosses from to (deprecatedAt m)}"
    by (simp only: Version_scheduleInterrupts set_interrupt_versions) auto
  show "\<forall>interrupt \<in> set (scheduleInterrupts registry from to).
      MigrationIDs interrupt =
        map migration_id (filter (\<lambda>m. deprecatedAt m = Version interrupt) registry) \<and>
      MigrationIDs interrupt \<noteq> []"
  proof
    fix interrupt
    assume "interrupt \<in> set (scheduleInterrupts registry from to)"
    then obtain v where v: "v \<in> set (interrupt_versions ?crossed)"
      and i: "interrupt = \<lparr>Version = v,
                MigrationIDs = map migration_id (filter (\<lambda>m. deprecatedAt m = v) ?crossed)\<rparr>"
      by (auto simp: scheduleInterrupts_def Let_def)
    from v obtain m where m: "m \<in> set registry" "crosses from to (deprecatedAt m)" "deprecatedAt m = v"
      by (auto simp: set_interrupt_versions)
    then have c: "crosses from to v" by simp
    have "filter (\<lambda>m. deprecatedAt m = v) ?crossed = filter (\<lambda>m. deprecatedAt m = v) registry"
      using c by (auto simp: filter_filter intro!: filter_cong)
    moreover have "m \<in> set (filter (\<lambda>m. deprecatedAt m = v) registry)"
      using m by simp
    then have "filter (\<lambda>m. deprecatedAt m = v) registry \<noteq> []"
      by (metis empty_iff empty_set)
    ultimately show "MigrationIDs interrupt =
        map migration_id (filter (\<lambda>m. deprecatedAt m = Version interrupt) registry) \<and>
      MigrationIDs interrupt \<noteq> []"
      by (simp add: i)
  qed
  show "\<forall>m \<in> set registry. \<not> crosses from to (deprecatedAt m) \<longrightarrow>
      deprecatedAt m \<notin> set (map Version (scheduleInterrupts registry from to))"
    unfolding versions by auto
  show "crosses from to point \<longleftrightarrow>
      CompareVersions from point = VersionOrderBefore \<and>
      (CompareVersions point to = VersionOrderBefore \<or> point = to)"
  proof -
    have "point = to \<longleftrightarrow> CompareVersions point to = VersionOrderEqual"
      by (auto simp: CompareVersions_Equal)
    then show ?thesis
      by (cases "CompareVersions point to") (auto simp: crosses_def)
  qed
qed

theorem scheduleInterrupts_one_entry_per_crossed_version_witness:
  "scheduleInterrupts
     [\<lparr>migration_id = 1, introducedAt = NewVersion 1 0, deprecatedAt = NewVersion 2 0\<rparr>]
     (NewVersion 1 0) (NewVersion 3 0) = [\<lparr>Version = NewVersion 2 0, MigrationIDs = [1]\<rparr>] \<and>
   scheduleInterrupts
     [\<lparr>migration_id = 1, introducedAt = NewVersion 1 0, deprecatedAt = NewVersion 2 0\<rparr>]
     (NewVersion 2 0) (NewVersion 3 0) = [] \<and>
   NewVersion 2 0 \<notin> set (map Version (scheduleInterrupts
     [\<lparr>migration_id = 1, introducedAt = NewVersion 1 0, deprecatedAt = NewVersion 2 0\<rparr>]
     (NewVersion 2 0) (NewVersion 3 0)))"
proof -
  let ?m = "\<lparr>migration_id = 1, introducedAt = NewVersion 1 0, deprecatedAt = NewVersion 2 0\<rparr>"
  have a: "scheduleInterrupts [?m] (NewVersion 1 0) (NewVersion 3 0) =
      [\<lparr>Version = NewVersion 2 0, MigrationIDs = [1]\<rparr>]"
    by (simp add: scheduleInterrupts_def interrupt_versions_def crosses_def CompareVersions_def
        NewVersion_def)
  have b: "scheduleInterrupts [?m] (NewVersion 2 0) (NewVersion 3 0) = []"
    by (simp add: scheduleInterrupts_def interrupt_versions_def crosses_def CompareVersions_def
        NewVersion_def)
  have out: "\<not> crosses (NewVersion 2 0) (NewVersion 3 0) (deprecatedAt ?m)"
    by (simp add: crosses_def CompareVersions_def NewVersion_def)
  from scheduleInterrupts_one_entry_per_crossed_version
    [of "[?m]" "NewVersion 2 0" "NewVersion 3 0"] out
  have c: "deprecatedAt ?m \<notin> set (map Version (scheduleInterrupts [?m] (NewVersion 2 0) (NewVersion 3 0)))"
    by (meson list.set_intros(1))
  from a b c show ?thesis by simp
qed

lemma crosses_pointIntersectsInterval:
  "crosses from to point \<longleftrightarrow> pointIntersectsInterval from to point \<and> point \<noteq> from"
proof -
  have "point = from \<longleftrightarrow> CompareVersions point from = VersionOrderEqual"
    by (auto simp: CompareVersions_Equal)
  moreover have "CompareVersions from point = VersionOrderBefore \<longleftrightarrow>
      CompareVersions point from = VersionOrderAfter"
    by (auto simp: CompareVersions_Before CompareVersions_After)
  moreover have "CompareVersions to point = VersionOrderBefore \<longleftrightarrow>
      CompareVersions point to = VersionOrderAfter"
    by (auto simp: CompareVersions_Before CompareVersions_After)
  ultimately show ?thesis
    by (cases "CompareVersions point from") (auto simp: crosses_def pointIntersectsInterval_def)
qed

section \<open>Properties of the upgrade planner\<close>

lemma stitch_schemas_Inr:
  "stitch_schemas deps versionRange names m calls = (calls', Inr metadata) \<Longrightarrow>
   metadata schemaName =
     (if schemaName \<in> set names
      then (case StitchDefinitions deps schemaName repo_root (gitTags versionRange) of
              Inl err \<Rightarrow> None
            | Inr (defs, leaves) \<Rightarrow> Some \<lparr>definitions = defs, leafIDsByRev = leaves\<rparr>)
      else m schemaName)"
proof (induction names arbitrary: m calls)
  case Nil
  then show ?case by simp
next
  case (Cons name names)
  show ?case
  proof (cases "StitchDefinitions deps name repo_root (gitTags versionRange)")
    case (Inl err)
    with Cons.prems show ?thesis by simp
  next
    case (Inr stitched)
    obtain defs leaves where st: "stitched = (defs, leaves)" by (cases stitched)
    from Cons.prems Inr st
    have "stitch_schemas deps versionRange names
            (m(name \<mapsto> \<lparr>definitions = defs, leafIDsByRev = leaves\<rparr>))
            (calls @ [Call_StitchDefinitions name repo_root (gitTags versionRange)])
          = (calls', Inr metadata)"
      by simp
    from Cons.IH [OF this] Inr st show ?thesis by auto
  qed
qed

text \<open>
  A run over the schema names that succeeds has asked \<open>StitchDefinitions\<close> once for every
  name, in order, each time for the tags of all the versions of the range.
\<close>

lemma stitch_schemas_calls:
  "stitch_schemas deps versionRange names m calls = (calls', Inr metadata) \<Longrightarrow>
   calls' = calls @ map (\<lambda>name. Call_StitchDefinitions name repo_root (map GitTag versionRange))
                      names"
proof (induction names arbitrary: m calls)
  case Nil
  then show ?case by simp
next
  case (Cons name names)
  show ?case
  proof (cases "StitchDefinitions deps name repo_root (gitTags versionRange)")
    case (Inl err)
    with Cons.prems show ?thesis by simp
  next
    case (Inr stitched)
    obtain defs leaves where st: "stitched = (defs, leaves)" by (cases stitched)
    from Cons.prems Inr st
    have "stitch_schemas deps versionRange names
            (m(name \<mapsto> \<lparr>definitions = defs, leafIDsByRev = leaves\<rparr>))
            (calls @ [Call_StitchDefinitions name repo_root (gitTags versionRange)])
          = (calls', Inr metadata)"
      by simp
    from Cons.IH [OF this] show ?thesis by (simp add: gitTags_def)
  qed
qed

text \<open>
  Claim C10. On the empty range \<open>planUpgrade\<close> returns the empty sequence of steps and no
  error, whatever the collaborators are, and calls neither \<open>StitchDefinitions\<close> nor
  \<open>ScheduleMigrationInterrupts\<close>.
\<close>

theorem planUpgrade_empty_range:
  "planUpgrade deps [] = ([], Inr [])"
  by (simp add: planUpgrade_def)

text \<open>
  Claim C4. When \<open>planUpgrade\<close> returns steps for a range that is not empty, it has asked
  \<open>StitchDefinitions\<close>, for every schema of \<open>SchemaNames\<close>, to resolve the tags of all the
  versions of the range, the tag of the last version \<open>to\<close> among them, and then asked for
  the interrupts from the first version to \<open>to\<close>. The steps are one step for each
  interrupt, in the order of the interrupts, and then exactly one more step: its version
  is \<open>to\<close>, its out-of-band migrations are none, and its leaves are, for every schema of
  \<open>SchemaNames\<close>, the ones that \<open>StitchDefinitions\<close> resolved for the tag of \<open>to\<close>.
\<close>

theorem planUpgrade_final_step:
  assumes "versionRange \<noteq> []" and "planUpgrade deps versionRange = (calls, Inr steps)"
  shows "\<exists>calls' metadata interrupts.
     metadataBySchemaNameForVersion deps versionRange = (calls', Inr metadata) \<and>
     ScheduleMigrationInterrupts deps (hd versionRange) (last versionRange) = Inr interrupts \<and>
     calls = map (\<lambda>schemaName.
                    Call_StitchDefinitions schemaName repo_root (map GitTag versionRange))
               (SchemaNames deps)
             @ [Call_ScheduleMigrationInterrupts (hd versionRange) (last versionRange)] \<and>
     GitTag (last versionRange) \<in> set (map GitTag versionRange) \<and>
     steps = map (\<lambda>interrupt. makeUpgradeStep metadata (Version interrupt) (MigrationIDs interrupt))
               interrupts
             @ [makeUpgradeStep metadata (last versionRange) []] \<and>
     length steps = length interrupts + 1 \<and>
     InstanceVersion (last steps) = last versionRange \<and>
     OutOfBandMigrationIDs (last steps) = [] \<and>
     LeafMigrationIDsBySchema (last steps) =
       (\<lambda>schemaName.
          if schemaName \<in> set (SchemaNames deps)
          then (case StitchDefinitions deps schemaName repo_root (map GitTag versionRange) of
                  Inl err \<Rightarrow> None
                | Inr (defs, leaves) \<Rightarrow> Some (index_or_nil leaves (GitTag (last versionRange))))
          else None)"
proof -
  from assms(1) obtain "from" rest where r: "versionRange = from # rest"
    by (cases versionRange) auto
  obtain calls' res where md: "metadataBySchemaNameForVersion deps versionRange = (calls', res)"
    by (cases "metadataBySchemaNameForVersion deps versionRange")
  from assms(2) r md obtain metadata where res: "res = Inr metadata"
    by (cases res) (auto simp: planUpgrade_def)
  from assms(2) r md res obtain interrupts
    where sch: "ScheduleMigrationInterrupts deps from (last versionRange) = Inr interrupts"
    by (cases "ScheduleMigrationInterrupts deps from (last versionRange)")
      (auto simp: planUpgrade_def Let_def)
  from assms(2) r md res sch
  have steps: "steps = map (\<lambda>interrupt. makeUpgradeStep metadata (Version interrupt) (MigrationIDs interrupt))
               interrupts
             @ [makeUpgradeStep metadata (last versionRange) []]"
    by (auto simp: planUpgrade_def Let_def)
  from assms(2) r md res sch
  have "calls = calls' @ [Call_ScheduleMigrationInterrupts from (last versionRange)]"
    by (auto simp: planUpgrade_def Let_def)
  moreover have "calls' = map (\<lambda>schemaName.
                    Call_StitchDefinitions schemaName repo_root (map GitTag versionRange))
               (SchemaNames deps)"
    using stitch_schemas_calls [of deps versionRange "SchemaNames deps" Map.empty "[]" calls' metadata]
      md res by (simp add: metadataBySchemaNameForVersion_def)
  ultimately have calls: "calls = map (\<lambda>schemaName.
                    Call_StitchDefinitions schemaName repo_root (map GitTag versionRange))
               (SchemaNames deps)
             @ [Call_ScheduleMigrationInterrupts (hd versionRange) (last versionRange)]"
    using r by simp
  have tag: "GitTag (last versionRange) \<in> set (map GitTag versionRange)"
    using assms(1) by simp
  have lookup: "metadata schemaName =
     (if schemaName \<in> set (SchemaNames deps)
      then (case StitchDefinitions deps schemaName repo_root (map GitTag versionRange) of
              Inl err \<Rightarrow> None
            | Inr (defs, leaves) \<Rightarrow> Some \<lparr>definitions = defs, leafIDsByRev = leaves\<rparr>)
      else None)" for schemaName
    using stitch_schemas_Inr [of deps versionRange "SchemaNames deps" Map.empty "[]" calls' metadata schemaName]
      md res by (simp add: metadataBySchemaNameForVersion_def gitTags_def)
  have leaves: "LeafMigrationIDsBySchema (last steps) =
       (\<lambda>schemaName.
          if schemaName \<in> set (SchemaNames deps)
          then (case StitchDefinitions deps schemaName repo_root (map GitTag versionRange) of
                  Inl err \<Rightarrow> None
                | Inr (defs, leaves) \<Rightarrow> Some (index_or_nil leaves (GitTag (last versionRange))))
          else None)"
    by (rule ext) (simp add: steps makeUpgradeStep_def lookup split: sum.splits)
  show ?thesis
    using md res sch steps leaves calls tag r by (simp add: makeUpgradeStep_def)
qed

text \<open>
  A run of the planner on the range \<open>3.46, 3.47, 4.0\<close>. The stitcher knows the leaves of
  three tags and resolves only the tags it is asked for; one migration is deprecated at
  3.47.
\<close>

theorem planUpgrade_final_step_witness:
  "\<exists>steps.
     planUpgrade
       \<lparr>SchemaNames = [''frontend''],
        StitchDefinitions = (\<lambda>schemaName root tags.
          Inr ((), (\<lambda>tag. if tag \<in> set tags
                           then [''v3.46.0'' \<mapsto> [1], ''v3.47.0'' \<mapsto> [1, 2], ''v4.0.0'' \<mapsto> [3]] tag
                           else None))),
        ScheduleMigrationInterrupts = (\<lambda>from to. Inr (scheduleInterrupts
          [\<lparr>migration_id = 7, introducedAt = NewVersion 3 40, deprecatedAt = NewVersion 3 47\<rparr>]
          from to))\<rparr>
       [NewVersion 3 46, NewVersion 3 47, NewVersion 4 0] =
       ([Call_StitchDefinitions ''frontend'' repo_root [''v3.46.0'', ''v3.47.0'', ''v4.0.0''],
         Call_ScheduleMigrationInterrupts (NewVersion 3 46) (NewVersion 4 0)],
        Inr steps) \<and>
     length steps = 2 \<and>
     InstanceVersion (hd steps) = NewVersion 3 47 \<and>
     OutOfBandMigrationIDs (hd steps) = [7] \<and>
     LeafMigrationIDsBySchema (hd steps) ''frontend'' = Some [1, 2] \<and>
     InstanceVersion (last steps) = NewVersion 4 0 \<and>
     OutOfBandMigrationIDs (last steps) = [] \<and>
     LeafMigrationIDsBySchema (last steps) ''frontend'' = Some [3] \<and>
     LeafMigrationIDsBySchema (last steps) ''codeintel'' = None"
proof -
  let ?deps = "\<lparr>SchemaNames = [''frontend''],
        StitchDefinitions = (\<lambda>schemaName root tags.
          Inr ((), (\<lambda>tag. if tag \<in> set tags
                           then [''v3.46.0'' \<mapsto> [1::int], ''v3.47.0'' \<mapsto> [1, 2], ''v4.0.0'' \<mapsto> [3]] tag
                           else None))),
        ScheduleMigrationInterrupts = (\<lambda>from to. Inr (scheduleInterrupts
          [\<lparr>migration_id = 7, introducedAt = NewVersion 3 40, deprecatedAt = NewVersion 3 47\<rparr>]
          from to))\<rparr>"
  let ?range = "[NewVersion 3 46, NewVersion 3 47, NewVersion 4 0]"
  have sched: "scheduleInterrupts
          [\<lparr>migration_id = 7, introducedAt = NewVersion 3 40, deprecatedAt = NewVersion 3 47\<rparr>]
          (NewVersion 3 46) (NewVersion 4 0) = [\<lparr>Version = NewVersion 3 47, MigrationIDs = [7]\<rparr>]"
    by (simp add: scheduleInterrupts_def interrupt_versions_def crosses_def CompareVersions_def
        NewVersion_def)
  have tags: "GitTag (NewVersion 3 46) = ''v3.46.0''" "GitTag (NewVersion 3 47) = ''v3.47.0''"
    "GitTag (NewVersion 4 0) = ''v4.0.0''"
    by (simp_all add: GitTag_def format_int_def NewVersion_def)
  obtain calls steps where run: "planUpgrade ?deps ?range = (calls, Inr steps)"
    by (simp add: planUpgrade_def metadataBySchemaNameForVersion_def sched Let_def)
  have nonempty: "?range \<noteq> []" by simp
  from planUpgrade_final_step [OF nonempty run]
  obtain calls' metadata interrupts where
    m: "metadataBySchemaNameForVersion ?deps ?range = (calls', Inr metadata)" and
    i: "ScheduleMigrationInterrupts ?deps (hd ?range) (last ?range) = Inr interrupts" and
    c: "calls = map (\<lambda>schemaName.
                    Call_StitchDefinitions schemaName repo_root (map GitTag ?range))
               (SchemaNames ?deps)
             @ [Call_ScheduleMigrationInterrupts (hd ?range) (last ?range)]" and
    st: "steps = map (\<lambda>interrupt. makeUpgradeStep metadata (Version interrupt)
                                     (MigrationIDs interrupt)) interrupts
             @ [makeUpgradeStep metadata (last ?range) []]" and
    len: "length steps = length interrupts + 1" and
    v: "InstanceVersion (last steps) = last ?range" and
    o: "OutOfBandMigrationIDs (last steps) = []" and
    l: "LeafMigrationIDsBySchema (last steps) =
       (\<lambda>schemaName.
          if schemaName \<in> set (SchemaNames ?deps)
          then (case StitchDefinitions ?deps schemaName repo_root (map GitTag ?range) of
                  Inl err \<Rightarrow> None
                | Inr (defs, leaves) \<Rightarrow> Some (index_or_nil leaves (GitTag (last ?range))))
          else None)"
    by blast
  from c have calls: "calls =
      [Call_StitchDefinitions ''frontend'' repo_root [''v3.46.0'', ''v3.47.0'', ''v4.0.0''],
       Call_ScheduleMigrationInterrupts (NewVersion 3 46) (NewVersion 4 0)]"
    by (simp add: tags)
  from i have ints: "interrupts = [\<lparr>Version = NewVersion 3 47, MigrationIDs = [7]\<rparr>]"
    by (simp add: sched)
  with len have "length steps = 2" by simp
  moreover from st ints have first: "hd steps = makeUpgradeStep metadata (NewVersion 3 47) [7]"
    by simp
  from m have "metadata ''frontend'' =
      Some \<lparr>definitions = (),
            leafIDsByRev = (\<lambda>tag. if tag \<in> set [''v3.46.0'', ''v3.47.0'', ''v4.0.0'']
                           then [''v3.46.0'' \<mapsto> [1], ''v3.47.0'' \<mapsto> [1, 2], ''v4.0.0'' \<mapsto> [3]] tag
                           else None)\<rparr>"
    by (auto simp add: metadataBySchemaNameForVersion_def gitTags_def tags)
  with first have "InstanceVersion (hd steps) = NewVersion 3 47 \<and>
      OutOfBandMigrationIDs (hd steps) = [7] \<and>
      LeafMigrationIDsBySchema (hd steps) ''frontend'' = Some [1, 2]"
    by (simp add: makeUpgradeStep_def index_or_nil_def tags)
  moreover have "LeafMigrationIDsBySchema (last steps) ''frontend'' = Some [3]"
    by (simp add: l index_or_nil_def tags)
  moreover have "LeafMigrationIDsBySchema (last steps) ''codeintel'' = None"
    by (simp add: l)
  ultimately show ?thesis using run calls v o by simp
qed

section \<open>Properties of the changeset spec migrator\<close>

text \<open>
  What the progress query computes: the share of the rows that are not migrated. It is
  in \<open>[0, 1]\<close>, and it is 1 exactly when no row is migrated.
\<close>

lemma Progress_value:
  assumes "failure store = None"
  shows "\<exists>p. Progress store = Inr p \<and> 0 \<le> p \<and> p \<le> 1 \<and>
     (p = 1 \<longleftrightarrow> (\<forall>row \<in> set (changeset_specs store). \<not> migrated row))"
proof -
  let ?rows = "changeset_specs store"
  let ?m = "length (filter migrated ?rows)"
  let ?n = "length ?rows"
  have mn: "?m \<le> ?n" by simp
  have none: "?m = 0 \<longleftrightarrow> (\<forall>row \<in> set ?rows. \<not> migrated row)"
    by (simp add: filter_empty_conv)
  show ?thesis
  proof (cases "?n = 0")
    case True
    then show ?thesis using assms
      by (simp add: Progress_def changesetSpecMigratorProgressQuery_def)
  next
    case False
    then have p: "Progress store = Inr ((real ?n - real ?m) / real ?n)"
      using assms mn by (simp add: Progress_def changesetSpecMigratorProgressQuery_def Let_def of_nat_diff)
    have "0 \<le> (real ?n - real ?m) / real ?n" using mn by simp
    moreover have "(real ?n - real ?m) / real ?n \<le> 1" using False by simp
    moreover have "(real ?n - real ?m) / real ?n = 1 \<longleftrightarrow> ?m = 0"
      using False by (simp add: field_simps)
    ultimately show ?thesis using p none by simp
  qed
qed

text \<open>
  Claim C6. The claim is that \<open>Progress\<close> is 1 exactly when every row is migrated (or the
  table is empty). On a table whose one row is migrated the source returns 0, and on a
  table whose one row is not migrated it returns 1: the query counts the migrated rows
  as the work that is left.
\<close>

theorem Progress_all_migrated_is_zero:
  "Progress \<lparr>changeset_specs = [\<lparr>spec_id = 1, migrated = True, other_columns = ()\<rparr>],
             failure = None\<rparr> = Inr 0 \<and>
   Progress \<lparr>changeset_specs = [\<lparr>spec_id = 1, migrated = False, other_columns = ()\<rparr>],
             failure = None\<rparr> = Inr 1 \<and>
   Progress \<lparr>changeset_specs = [\<lparr>spec_id = 1, migrated = True, other_columns = ()\<rparr>,
                                 \<lparr>spec_id = 2, migrated = True, other_columns = ()\<rparr>,
                                 \<lparr>spec_id = 3, migrated = True, other_columns = ()\<rparr>,
                                 \<lparr>spec_id = 4, migrated = False, other_columns = ()\<rparr>],
             failure = None\<rparr> = Inr (1 / 4) \<and>
   Progress \<lparr>changeset_specs = ([] :: unit changeset_spec list), failure = None\<rparr> = Inr 1"
  by (simp add: Progress_def changesetSpecMigratorProgressQuery_def)

lemma Down_query_all: "changesetSpecMigratorDownQuery rows = map (\<lambda>row. row\<lparr>migrated := False\<rparr>) rows"
  by (simp add: changesetSpecMigratorDownQuery_def)

lemma reversed_rows_Down:
  "reversed_rows rows (changesetSpecMigratorDownQuery rows) = map spec_id (filter migrated rows)"
proof -
  have "(migrated row \<and> (\<exists>row' \<in> set (changesetSpecMigratorDownQuery rows).
            spec_id row' = spec_id row \<and> \<not> migrated row')) = migrated row"
    if "row \<in> set rows" for row
    using that by (auto simp: Down_query_all intro!: bexI [of _ row])
  then have "filter (\<lambda>row. migrated row \<and> (\<exists>row' \<in> set (changesetSpecMigratorDownQuery rows).
            spec_id row' = spec_id row \<and> \<not> migrated row')) rows = filter migrated rows"
    by (intro filter_cong) auto
  then show ?thesis by (simp add: reversed_rows_def)
qed

text \<open>
  Claim C7, as amended. A call of \<open>Down\<close> on a store that does not fail sets \<open>migrated\<close> to
  false in every row of the table, whatever their number, and changes nothing else in a
  row; the rows reversed are all the rows that were migrated. On a store that fails it
  returns the error and leaves the store as it was.
\<close>

theorem Down_reverses_every_row:
  "(failure store = None \<longrightarrow>
      snd (Down store) = None \<and>
      changeset_specs (fst (Down store)) =
        map (\<lambda>row. row\<lparr>migrated := False\<rparr>) (changeset_specs store) \<and>
      failure (fst (Down store)) = None \<and>
      (\<forall>row \<in> set (changeset_specs (fst (Down store))). \<not> migrated row) \<and>
      reversed_rows (changeset_specs store) (changeset_specs (fst (Down store))) =
        map spec_id (filter migrated (changeset_specs store))) \<and>
   (\<forall>err. failure store = Some err \<longrightarrow> Down store = (store, Some err))"
proof -
  have "reversed_rows rows (map (\<lambda>row. row\<lparr>migrated := False\<rparr>) rows) =
      map spec_id (filter migrated rows)" for rows :: "'a changeset_spec list"
    using reversed_rows_Down [of rows] by (simp add: Down_query_all)
  then show ?thesis
    by (auto simp: Down_def Down_query_all)
qed

theorem Down_reverses_every_row_witness:
  "snd (Down \<lparr>changeset_specs = [\<lparr>spec_id = 1, migrated = True, other_columns = ''a''\<rparr>,
                                  \<lparr>spec_id = 2, migrated = False, other_columns = ''b''\<rparr>,
                                  \<lparr>spec_id = 3, migrated = True, other_columns = ''c''\<rparr>],
               failure = None\<rparr>) = None \<and>
   changeset_specs (fst (Down \<lparr>changeset_specs =
                                 [\<lparr>spec_id = 1, migrated = True, other_columns = ''a''\<rparr>,
                                  \<lparr>spec_id = 2, migrated = False, other_columns = ''b''\<rparr>,
                                  \<lparr>spec_id = 3, migrated = True, other_columns = ''c''\<rparr>],
               failure = None\<rparr>)) =
     [\<lparr>spec_id = 1, migrated = False, other_columns = ''a''\<rparr>,
      \<lparr>spec_id = 2, migrated = False, other_columns = ''b''\<rparr>,
      \<lparr>spec_id = 3, migrated = False, other_columns = ''c''\<rparr>] \<and>
   Down \<lparr>changeset_specs = [\<lparr>spec_id = 1, migrated = True, other_columns = ''a''\<rparr>],
         failure = Some (Error ''connection refused'')\<rparr> =
     (\<lparr>changeset_specs = [\<lparr>spec_id = 1, migrated = True, other_columns = ''a''\<rparr>],
         failure = Some (Error ''connection refused'')\<rparr>, Some (Error ''connection refused''))"
  using Down_reverses_every_row [of "\<lparr>changeset_specs =
                                 [\<lparr>spec_id = 1, migrated = True, other_columns = ''a''\<rparr>,
                                  \<lparr>spec_id = 2, migrated = False, other_columns = ''b''\<rparr>,
                                  \<lparr>spec_id = 3, migrated = True, other_columns = ''c''\<rparr>],
               failure = None\<rparr>"]
    Down_reverses_every_row [of "\<lparr>changeset_specs = [\<lparr>spec_id = 1, migrated = True, other_columns = ''a''\<rparr>],
         failure = Some (Error ''connection refused'')\<rparr>"]
  by simp

lemma migrated_table_all: "filter migrated (migrated_table n) = migrated_table n"
  by (simp add: migrated_table_def)

text \<open>
  The claim as stated, that one call reverses at most one batch of the size of \<open>Up\<close>'s,
  fails on a table of 101 migrated rows: one call reverses all 101.
\<close>

theorem Down_reverses_more_than_one_batch:
  "length (reversed_rows (migrated_table 101)
     (changeset_specs (fst (Down \<lparr>changeset_specs = migrated_table 101, failure = None\<rparr>)))) = 101 \<and>
   changesetSpecMigrationCountPerRun = 100 \<and>
   snd (Down \<lparr>changeset_specs = migrated_table 101, failure = None\<rparr>) = None"
proof -
  have "changeset_specs (fst (Down \<lparr>changeset_specs = migrated_table 101, failure = None\<rparr>))
      = changesetSpecMigratorDownQuery (migrated_table 101)"
    by (simp add: Down_def)
  then have "length (reversed_rows (migrated_table 101)
     (changeset_specs (fst (Down \<lparr>changeset_specs = migrated_table 101, failure = None\<rparr>)))) =
     length (migrated_table 101)"
    by (simp add: reversed_rows_Down migrated_table_all)
  then show ?thesis
    by (simp add: migrated_table_def changesetSpecMigrationCountPerRun_def Down_def)
qed

end
